theory Spec2Isabelle
  imports Main
begin

section \<open>Python values used by \<^verbatim>\<open>cdl.py\<close>\<close>

text \<open>
  A Python \<^verbatim>\<open>str\<close> is modelled as a \<^typ>\<open>string\<close>; each \<^typ>\<open>char\<close> stands for one
  code point below 256. The exceptions the program can meet are values of \<open>error\<close>;
  a computation that may raise returns \<open>error + 'a\<close> with \<open>Inl\<close> for the exception.
\<close>

datatype error = ValueError | KeyError | FileNotFoundError | FileExistsError | NotADirectoryError

subsection \<open>\<^verbatim>\<open>str.startswith\<close>, \<^verbatim>\<open>str.lstrip\<close>, \<^verbatim>\<open>int\<close>, \<^verbatim>\<open>max\<close>\<close>

definition py_startswith :: "string \<Rightarrow> string \<Rightarrow> bool" where
  "py_startswith s pre = (take (length pre) s = pre)"

text \<open>
  \<^verbatim>\<open>s.lstrip(chars)\<close> removes leading characters as long as they belong to the
  \<^emph>\<open>set\<close> of characters of its argument; it does not remove a prefix.
\<close>

definition py_lstrip :: "string \<Rightarrow> string \<Rightarrow> string" where
  "py_lstrip s chars = dropWhile (\<lambda>x. x \<in> set chars) s"

text \<open>
  \<^verbatim>\<open>int(s)\<close> in base 10: white space around the literal is dropped, one sign is
  allowed, then decimal digits follow, single underscores may separate digits, and
  nothing else may remain. Among the code points below 256 the white space of
  \<^verbatim>\<open>int\<close> is 9 to 13, 32, 133 and 160, and the only decimal digits are 0 to 9.
  Anything else raises \<^verbatim>\<open>ValueError\<close>. The bound that recent versions of Python put on
  the number of digits (4300) is longer than any file name and is left out.
\<close>

definition py_isspace :: "char \<Rightarrow> bool" where
  "py_isspace c = (let n = (of_char c :: nat) in (9 \<le> n \<and> n \<le> 13) \<or> n = 32 \<or> n = 133 \<or> n = 160)"

definition py_isdigit :: "char \<Rightarrow> bool" where
  "py_isdigit c = (let n = (of_char c :: nat) in 48 \<le> n \<and> n \<le> 57)"

definition digit_value :: "char \<Rightarrow> nat" where
  "digit_value c = of_char c - 48"

definition py_strip :: "string \<Rightarrow> string" where
  "py_strip s = rev (dropWhile py_isspace (rev (dropWhile py_isspace s)))"

fun digits_from :: "nat \<Rightarrow> string \<Rightarrow> nat option" where
  "digits_from acc [] = Some acc"
| "digits_from acc [c] = (if py_isdigit c then Some (10 * acc + digit_value c) else None)"
| "digits_from acc (c # d # ds) =
     (if py_isdigit c then digits_from (10 * acc + digit_value c) (d # ds)
      else if c = CHR ''_'' \<and> py_isdigit d then digits_from (10 * acc + digit_value d) ds
      else None)"

definition unsigned_literal :: "string \<Rightarrow> nat option" where
  "unsigned_literal s =
     (case s of
        [] \<Rightarrow> None
      | c # cs \<Rightarrow> if py_isdigit c then digits_from (digit_value c) cs else None)"

definition py_int :: "string \<Rightarrow> error + int" where
  "py_int s =
     (case py_strip s of
        [] \<Rightarrow> Inl ValueError
      | c # cs \<Rightarrow>
          if c = CHR ''-'' then
            (case unsigned_literal cs of None \<Rightarrow> Inl ValueError | Some n \<Rightarrow> Inr (- int n))
          else if c = CHR ''+'' then
            (case unsigned_literal cs of None \<Rightarrow> Inl ValueError | Some n \<Rightarrow> Inr (int n))
          else
            (case unsigned_literal (c # cs) of None \<Rightarrow> Inl ValueError | Some n \<Rightarrow> Inr (int n)))"

text \<open>
  \<^verbatim>\<open>max(xs, key=f)\<close> raises \<^verbatim>\<open>ValueError\<close> on an empty sequence. Otherwise it calls
  \<open>f\<close> on every element in order, so an exception of \<open>f\<close> ends the call, and it
  replaces the element it holds only by one whose key is strictly greater.
\<close>

fun max_loop :: "('a \<Rightarrow> error + int) \<Rightarrow> 'a \<Rightarrow> int \<Rightarrow> 'a list \<Rightarrow> error + 'a" where
  "max_loop key best bv [] = Inr best"
| "max_loop key best bv (x # xs) =
     (case key x of
        Inl e \<Rightarrow> Inl e
      | Inr v \<Rightarrow> if v > bv then max_loop key x v xs else max_loop key best bv xs)"

definition py_max :: "('a \<Rightarrow> error + int) \<Rightarrow> 'a list \<Rightarrow> error + 'a" where
  "py_max key xs =
     (case xs of
        [] \<Rightarrow> Inl ValueError
      | x # rest \<Rightarrow> (case key x of Inl e \<Rightarrow> Inl e | Inr v \<Rightarrow> max_loop key x v rest))"

section \<open>The configuration: class \<^verbatim>\<open>Config\<close>\<close>

definition IS_WEEK_DIR :: "string \<Rightarrow> bool" where
  "IS_WEEK_DIR s = py_startswith s ''week''"

definition IS_COURSE_DIR :: "string \<Rightarrow> bool" where
  "IS_COURSE_DIR s = py_startswith s ''course''"

definition GET_LATEST_WEEK :: "string list \<Rightarrow> error + string" where
  "GET_LATEST_WEEK weeks = py_max (\<lambda>w. py_int (py_lstrip w ''week'')) weeks"

definition GET_LATEST_COURSE :: "string list \<Rightarrow> error + string" where
  "GET_LATEST_COURSE courses = py_max (\<lambda>c. py_int (py_lstrip c ''course'')) courses"

definition COURSE_IDENTIFICATION_TO_DIR :: "string \<Rightarrow> string" where
  "COURSE_IDENTIFICATION_TO_DIR course_id = ''course'' @ course_id"

definition WEEK_IDENTIFICATION_TO_DIR :: "string \<Rightarrow> string" where
  "WEEK_IDENTIFICATION_TO_DIR week_id = ''week'' @ week_id"

text \<open>
  The bodies of \<^verbatim>\<open>get_latest_course\<close> and \<^verbatim>\<open>get_latest_week\<close> once \<^verbatim>\<open>os.listdir\<close> has
  returned the names of the directory: the filter by name, then \<^verbatim>\<open>None\<close> for an
  empty selection and the configured maximum otherwise.
\<close>

definition latest_course_of :: "string list \<Rightarrow> error + string option" where
  "latest_course_of names =
     (let courses = filter IS_COURSE_DIR names
      in if courses \<noteq> [] then map_sum id Some (GET_LATEST_COURSE courses) else Inr None)"

definition latest_week_of :: "string list \<Rightarrow> error + string option" where
  "latest_week_of names =
     (let weeks = filter IS_WEEK_DIR names
      in if weeks \<noteq> [] then map_sum id Some (GET_LATEST_WEEK weeks) else Inr None)"

section \<open>The file system\<close>

text \<open>
  A path is the list of its components below the root directory, as \<^verbatim>\<open>pathlib\<close>
  keeps them; a component \<^verbatim>\<open>..\<close> is kept in the path and followed by the system when
  the path is used. The file system is the list of its entries, each under its
  resolved path, in the order in which \<^verbatim>\<open>os.listdir\<close> reports them; a new directory
  is reported last. The root always exists. There are no symbolic links, and no call
  fails for lack of permission, space or name length. Every system call is recorded
  in \<open>calls\<close>.
\<close>

type_synonym path = "string list"

datatype node = File string | Dir

type_synonym fs = "(path \<times> node) list"

datatype syscall = Mkdir path | Listdir path | Stat path

record world =
  files :: fs
  calls :: "syscall list"

definition lookup :: "fs \<Rightarrow> path \<Rightarrow> node option" where
  "lookup t p = (if p = [] then Some Dir else map_of t p)"

text \<open>
  \<open>walk t cur cs\<close> follows the components \<open>cs\<close> from the directory \<open>cur\<close>: each
  must name a directory, and \<^verbatim>\<open>..\<close> leads to the parent (the root is its own parent).
\<close>

fun walk :: "fs \<Rightarrow> path \<Rightarrow> string list \<Rightarrow> error + path" where
  "walk t cur [] = Inr cur"
| "walk t cur (c # cs) =
     (if c = ''..'' then walk t (butlast cur) cs
      else case lookup t (cur @ [c]) of
             None \<Rightarrow> Inl FileNotFoundError
           | Some (File x) \<Rightarrow> Inl NotADirectoryError
           | Some Dir \<Rightarrow> walk t (cur @ [c]) cs)"

definition dir_at :: "fs \<Rightarrow> path \<Rightarrow> bool" where
  "dir_at t p = (case walk t [] p of Inl e \<Rightarrow> False | Inr d \<Rightarrow> True)"

definition children :: "fs \<Rightarrow> path \<Rightarrow> string list" where
  "children t d = map (last \<circ> fst) (filter (\<lambda>(p, n). p \<noteq> [] \<and> butlast p = d) t)"

definition record_call :: "syscall \<Rightarrow> world \<Rightarrow> world" where
  "record_call s w = w\<lparr>calls := calls w @ [s]\<rparr>"

text \<open>
  \<^verbatim>\<open>os.mkdir\<close> creates one directory: its parent must resolve to a directory, and the
  name must be free.
\<close>

definition os_mkdir :: "path \<Rightarrow> world \<Rightarrow> (error + unit) \<times> world" where
  "os_mkdir p w =
     (let w1 = record_call (Mkdir p) w
      in if p = [] then (Inl FileExistsError, w1)
         else case walk (files w) [] (butlast p) of
                Inl e \<Rightarrow> (Inl e, w1)
              | Inr d \<Rightarrow>
                  if last p = ''..'' \<or> lookup (files w) (d @ [last p]) \<noteq> None
                  then (Inl FileExistsError, w1)
                  else (Inr (), w1\<lparr>files := files w @ [(d @ [last p], Dir)]\<rparr>))"

definition os_listdir :: "path \<Rightarrow> world \<Rightarrow> (error + string list) \<times> world" where
  "os_listdir p w =
     (let w1 = record_call (Listdir p) w
      in case walk (files w) [] p of
           Inl e \<Rightarrow> (Inl e, w1)
         | Inr d \<Rightarrow> (Inr (children (files w) d), w1))"

text \<open>\<^verbatim>\<open>Path.is_dir\<close> asks the system and answers \<^verbatim>\<open>False\<close> when the path is not there.\<close>

definition is_dir :: "path \<Rightarrow> world \<Rightarrow> bool \<times> world" where
  "is_dir p w = (dir_at (files w) p, record_call (Stat p) w)"

text \<open>
  \<^verbatim>\<open>Path.mkdir(parents, exist_ok=True)\<close> of \<^verbatim>\<open>pathlib\<close>: on \<^verbatim>\<open>FileNotFoundError\<close> with
  \<^verbatim>\<open>parents\<close> set it makes the parent (the path without its last component) and then
  the path itself without \<^verbatim>\<open>parents\<close>; any other error of \<^verbatim>\<open>os.mkdir\<close> is forgiven when
  the path is a directory.
\<close>

function Path_mkdir :: "bool \<Rightarrow> path \<Rightarrow> world \<Rightarrow> (error + unit) \<times> world" where
  "Path_mkdir parents p w =
     (case os_mkdir p w of
        (Inr u, w1) \<Rightarrow> (Inr (), w1)
      | (Inl e, w1) \<Rightarrow>
          if e = FileNotFoundError then
            if \<not> parents \<or> butlast p = p then (Inl e, w1)
            else (case Path_mkdir True (butlast p) w1 of
                    (Inl e', w2) \<Rightarrow> (Inl e', w2)
                  | (Inr u, w2) \<Rightarrow> Path_mkdir False p w2)
          else (case is_dir p w1 of
                  (True, w2) \<Rightarrow> (Inr (), w2)
                | (False, w2) \<Rightarrow> (Inl e, w2)))"
  by pat_completeness auto
termination
  apply (relation "measure (\<lambda>(parents, p, w). 2 * length p + (if parents then 1 else 0))")
    apply simp
   apply (case_tac p; simp)
  apply simp
  done

definition mkdir_gracefully :: "path \<Rightarrow> world \<Rightarrow> (error + unit) \<times> world" where
  "mkdir_gracefully p w = Path_mkdir True p w"

subsection \<open>Joining paths\<close>

text \<open>
  \<^verbatim>\<open>path / s\<close> of \<^verbatim>\<open>pathlib\<close>: the string is cut at every slash, empty components and
  \<^verbatim>\<open>.\<close> are dropped, and a string that starts with a slash replaces the path.
\<close>

fun split_slash :: "string \<Rightarrow> string list" where
  "split_slash [] = [[]]"
| "split_slash (x # xs) =
     (if x = CHR ''/'' then [] # split_slash xs
      else case split_slash xs of
             [] \<Rightarrow> [[x]]
           | y # ys \<Rightarrow> (x # y) # ys)"

definition parts_of :: "string \<Rightarrow> path" where
  "parts_of s = filter (\<lambda>part. part \<noteq> [] \<and> part \<noteq> ''.'') (split_slash s)"

definition joinpath :: "path \<Rightarrow> string \<Rightarrow> path" where
  "joinpath p s = (if py_startswith s ''/'' then parts_of s else p @ parts_of s)"

section \<open>The command line\<close>

text \<open>
  \<^verbatim>\<open>argparse\<close> first tells the option strings of the command line from the other
  strings; \<open>word\<close> is one item of the command line so read: a positional word, \<^verbatim>\<open>-c\<close>
  or \<^verbatim>\<open>-w\<close> with its argument, or the help option \<^verbatim>\<open>-h\<close>, which \<^verbatim>\<open>ArgumentParser\<close>
  adds by itself. Command lines with an unknown option or with an option that lacks
  its argument are not modelled.

  \<open>parse_loop\<close> goes through the words from left to right as \<^verbatim>\<open>parse_args\<close> of
  \<^verbatim>\<open>argparse\<close> does (Python 3.11). The help option ends the run with the help text
  and status 0 as soon as it is met. The first positional word is \<^verbatim>\<open>directory\<close>,
  checked against the aliases of \<^verbatim>\<open>COURSES\<close>; \<^verbatim>\<open>hw\<close> is filled at the same moment, by
  the next word when that is positional too, checked against \<^verbatim>\<open>c\<close> and \<^verbatim>\<open>h\<close>, and by
  the default \<^verbatim>\<open>h\<close> otherwise. Every later positional word is left over, and left over
  words are an error at the end, after the check that \<^verbatim>\<open>directory\<close> was given. An
  option that occurs again replaces its earlier value.
\<close>

definition COURSES :: "(string \<times> string) list" where
  "COURSES = [(''p'', ''programming_cpp''), (''a'', ''assembly'')]"

datatype word = Arg string | Opt_c string | Opt_w string | Help

record args =
  directory :: string
  hw :: string
  c_opt :: "string option"
  w_opt :: "string option"

datatype parser_message =
  Required string | Invalid_choice string string | Unrecognized "string list" | Message string

datatype parser_exit = Help_exit | Usage_error parser_message

fun parse_loop ::
  "word list \<Rightarrow> (string \<times> string) option \<Rightarrow> string option \<Rightarrow> string option \<Rightarrow> string list
     \<Rightarrow> parser_exit + args" where
  "parse_loop [] positionals c w extras =
     (case positionals of
        None \<Rightarrow> Inl (Usage_error (Required ''directory''))
      | Some (d, m) \<Rightarrow>
          if extras \<noteq> [] then Inl (Usage_error (Unrecognized extras))
          else Inr \<lparr>directory = d, hw = m, c_opt = c, w_opt = w\<rparr>)"
| "parse_loop (Help # ws) positionals c w extras = Inl Help_exit"
| "parse_loop (Opt_c s # ws) positionals c w extras = parse_loop ws positionals (Some s) w extras"
| "parse_loop (Opt_w s # ws) positionals c w extras = parse_loop ws positionals c (Some s) extras"
| "parse_loop (Arg s # ws) (Some p) c w extras = parse_loop ws (Some p) c w (extras @ [s])"
| "parse_loop (Arg d # Arg m # ws) None c w extras =
     (if d \<notin> set (map fst COURSES) then Inl (Usage_error (Invalid_choice ''directory'' d))
      else if m \<notin> set [''c'', ''h''] then Inl (Usage_error (Invalid_choice ''hw'' m))
      else parse_loop ws (Some (d, m)) c w extras)"
| "parse_loop (Arg d # ws) None c w extras =
     (if d \<notin> set (map fst COURSES) then Inl (Usage_error (Invalid_choice ''directory'' d))
      else parse_loop ws (Some (d, ''h'')) c w extras)"

definition parse_args :: "word list \<Rightarrow> parser_exit + args" where
  "parse_args raw = parse_loop raw None None None []"

section \<open>The program\<close>

definition create_week_dir :: "path \<Rightarrow> world \<Rightarrow> (error + unit) \<times> world" where
  "create_week_dir week_path w =
     (case mkdir_gracefully (joinpath week_path ''classwork'') w of
        (Inl e, w1) \<Rightarrow> (Inl e, w1)
      | (Inr u, w1) \<Rightarrow>
          (case mkdir_gracefully (joinpath (joinpath week_path ''homework'') ''src'') w1 of
             (Inl e, w2) \<Rightarrow> (Inl e, w2)
           | (Inr u, w2) \<Rightarrow>
               mkdir_gracefully (joinpath (joinpath week_path ''homework'') ''answ'') w2))"

definition get_latest_course :: "path \<Rightarrow> world \<Rightarrow> (error + string option) \<times> world" where
  "get_latest_course dir w =
     (case os_listdir dir w of
        (Inl e, w1) \<Rightarrow> (Inl e, w1)
      | (Inr names, w1) \<Rightarrow> (latest_course_of names, w1))"

definition get_latest_week :: "path \<Rightarrow> world \<Rightarrow> (error + string option) \<times> world" where
  "get_latest_week dir w =
     (case os_listdir dir w of
        (Inl e, w1) \<Rightarrow> (Inl e, w1)
      | (Inr names, w1) \<Rightarrow> (latest_week_of names, w1))"

definition get_course :: "path \<Rightarrow> args \<Rightarrow> world \<Rightarrow> (error + string option) \<times> world" where
  "get_course path a w =
     (case c_opt a of
        None \<Rightarrow> get_latest_course path w
      | Some course_id \<Rightarrow>
          (let course = COURSE_IDENTIFICATION_TO_DIR course_id
           in case mkdir_gracefully (joinpath path course) w of
                (Inl e, w1) \<Rightarrow> (Inl e, w1)
              | (Inr u, w1) \<Rightarrow> (Inr (Some course), w1)))"

definition get_week :: "path \<Rightarrow> args \<Rightarrow> world \<Rightarrow> (error + string option) \<times> world" where
  "get_week course_path a w =
     (case w_opt a of
        None \<Rightarrow> get_latest_week course_path w
      | Some week_id \<Rightarrow>
          (let week = WEEK_IDENTIFICATION_TO_DIR week_id
           in case create_week_dir (joinpath course_path week) w of
                (Inl e, w1) \<Rightarrow> (Inl e, w1)
              | (Inr u, w1) \<Rightarrow> (Inr (Some week), w1)))"

text \<open>
  A run ends in one of four ways: it prints a path (exit status 0), it prints the
  help (exit status 0), it ends in \<^verbatim>\<open>parser.error\<close>, which prints the usage and the
  message and exits with status 2, or an exception reaches the top (exit status 1).
\<close>

datatype outcome = Printed path | Help_printed | Parser_error parser_message | Uncaught error

fun exit_status :: "outcome \<Rightarrow> nat" where
  "exit_status (Printed p) = 0"
| "exit_status Help_printed = 0"
| "exit_status (Parser_error m) = 2"
| "exit_status (Uncaught e) = 1"

text \<open>
  \<open>run\<close> is the body of \<^verbatim>\<open>main\<close> after \<^verbatim>\<open>parse_args\<close> has returned; \<open>home\<close> is
  \<^verbatim>\<open>Path.home()\<close>.
\<close>

definition base_path_of :: "path \<Rightarrow> string \<Rightarrow> path" where
  "base_path_of home selected_dirname = joinpath (joinpath home ''Magshimim'') selected_dirname"

definition run :: "path \<Rightarrow> args \<Rightarrow> world \<Rightarrow> outcome \<times> world" where
  "run home a w =
     (case map_of COURSES (directory a) of
        None \<Rightarrow> (Uncaught KeyError, w)
      | Some selected_dirname \<Rightarrow>
          (let base_path = base_path_of home selected_dirname
           in case mkdir_gracefully base_path w of
                (Inl e, w1) \<Rightarrow> (Uncaught e, w1)
              | (Inr u, w1) \<Rightarrow>
                  (case get_course base_path a w1 of
                     (Inl e, w2) \<Rightarrow> (Uncaught e, w2)
                   | (Inr None, w2) \<Rightarrow>
                       (Parser_error (Message ''no course dir to use. Please specify with -c flag''), w2)
                   | (Inr (Some course), w2) \<Rightarrow>
                       (let course_path = joinpath base_path course
                        in case get_week course_path a w2 of
                             (Inl e, w3) \<Rightarrow> (Uncaught e, w3)
                           | (Inr None, w3) \<Rightarrow>
                               (Parser_error (Message ''no week dir to use. Please specify with -w flag''), w3)
                           | (Inr (Some week), w3) \<Rightarrow>
                               (let week_path = joinpath course_path week
                                in if hw a = ''c'' then (Printed (joinpath week_path ''classwork''), w3)
                                   else if hw a = ''h'' then
                                     (Printed (joinpath (joinpath week_path ''homework'') ''answ''), w3)
                                   else (Printed week_path, w3))))))"

definition main :: "path \<Rightarrow> word list \<Rightarrow> world \<Rightarrow> outcome \<times> world" where
  "main home raw w =
     (case parse_args raw of
        Inl Help_exit \<Rightarrow> (Help_printed, w)
      | Inl (Usage_error m) \<Rightarrow> (Parser_error m, w)
      | Inr a \<Rightarrow> run home a w)"

section \<open>Notions used in the statements\<close>

text \<open>
  The remainder of a name after a prefix, as the specification reads it: the
  name without its first \<open>length pre\<close> characters.
\<close>

definition remainder_after :: "string \<Rightarrow> string \<Rightarrow> string" where
  "remainder_after pre s = drop (length pre) s"

text \<open>The number after the prefix, and the number the program reads (\<open>0\<close> when there is none).\<close>

definition suffix_number :: "string \<Rightarrow> string \<Rightarrow> int" where
  "suffix_number pre n = (case py_int (remainder_after pre n) of Inl e \<Rightarrow> 0 | Inr v \<Rightarrow> v)"

definition stripped_number :: "string \<Rightarrow> string \<Rightarrow> int" where
  "stripped_number chars n = (case py_int (py_lstrip n chars) of Inl e \<Rightarrow> 0 | Inr v \<Rightarrow> v)"

text \<open>A literal accepted by \<^verbatim>\<open>int\<close> starts with white space, a sign or a digit.\<close>

definition literal_start :: "char \<Rightarrow> bool" where
  "literal_start x = (py_isspace x \<or> x = CHR ''-'' \<or> x = CHR ''+'' \<or> py_isdigit x)"

text \<open>
  What a command line says, read off its words: the alias is its first positional
  word, the leaf mode its second positional word, the course and week identifiers
  are the arguments of the last \<^verbatim>\<open>-c\<close> and the last \<^verbatim>\<open>-w\<close>, and \<open>help_first\<close> holds
  when the help option stands before every positional word.
\<close>

fun positional_words :: "word list \<Rightarrow> string list" where
  "positional_words [] = []"
| "positional_words (Arg s # ws) = s # positional_words ws"
| "positional_words (x # ws) = positional_words ws"



fun raw_c :: "word list \<Rightarrow> string option" where
  "raw_c [] = None"
| "raw_c (Opt_c s # ws) = (case raw_c ws of None \<Rightarrow> Some s | Some t \<Rightarrow> Some t)"
| "raw_c (x # ws) = raw_c ws"

fun raw_w :: "word list \<Rightarrow> string option" where
  "raw_w [] = None"
| "raw_w (Opt_w s # ws) = (case raw_w ws of None \<Rightarrow> Some s | Some t \<Rightarrow> Some t)"
| "raw_w (x # ws) = raw_w ws"






text \<open>\<open>later w w'\<close>: the world \<open>w'\<close> has seen the system calls of \<open>w\<close> and maybe more.\<close>

definition later :: "world \<Rightarrow> world \<Rightarrow> bool" where
  "later w w' = (\<exists>more. calls w' = calls w @ more)"

declare Path_mkdir.simps [simp del]

section \<open>Concrete file systems and command lines\<close>

text \<open>
  The file systems and command lines at which the statements below are evaluated:
  a home directory with an empty \<^verbatim>\<open>Magshimim\<close> directory, an empty category
  directory, a category with \<^verbatim>\<open>course3\<close> holding \<^verbatim>\<open>week1\<close> and \<^verbatim>\<open>week7\<close>, a course
  without weeks, and a directory holding a file.
\<close>

definition user_home :: path where
  "user_home = [''home'', ''user'']"

definition magshimim :: path where
  "magshimim = [''home'', ''user'', ''Magshimim'']"


definition empty_category :: world where
  "empty_category =
     \<lparr>files = [([''home''], Dir), ([''home'', ''user''], Dir), (magshimim, Dir),
               (magshimim @ [''assembly''], Dir)], calls = []\<rparr>"

definition one_course :: world where
  "one_course =
     \<lparr>files = [([''home''], Dir), ([''home'', ''user''], Dir), (magshimim, Dir),
               (magshimim @ [''assembly''], Dir),
               (magshimim @ [''assembly'', ''course3''], Dir),
               (magshimim @ [''assembly'', ''course3'', ''week1''], Dir),
               (magshimim @ [''assembly'', ''course3'', ''week7''], Dir)], calls = []\<rparr>"

definition course_without_weeks :: world where
  "course_without_weeks =
     \<lparr>files = [([''home''], Dir), ([''home'', ''user''], Dir), (magshimim, Dir),
               (magshimim @ [''assembly''], Dir),
               (magshimim @ [''assembly'', ''course3''], Dir),
               (magshimim @ [''assembly'', ''course3'', ''notes.txt''], File ''text'')],
      calls = []\<rparr>"


definition command :: "string \<Rightarrow> string option \<Rightarrow> string option \<Rightarrow> string option \<Rightarrow> word list" where
  "command alias mode_opt course_id week_id =
     Arg alias # (case mode_opt of None \<Rightarrow> [] | Some m \<Rightarrow> [Arg m]) @
     (case course_id of None \<Rightarrow> [] | Some s \<Rightarrow> [Opt_c s]) @
     (case week_id of None \<Rightarrow> [] | Some s \<Rightarrow> [Opt_w s])"

section \<open>Properties of \<^verbatim>\<open>max\<close> and \<^verbatim>\<open>int\<close>\<close>

lemma max_loop_fails:
  "isl (max_loop key best bv xs) \<longleftrightarrow> (\<exists>x \<in> set xs. isl (key x))"
  by (induction xs arbitrary: best bv) (auto split: sum.splits)

lemma py_max_fails:
  "isl (py_max key xs) \<longleftrightarrow> xs = [] \<or> (\<exists>x \<in> set xs. isl (key x))"
  by (cases xs) (auto simp: py_max_def max_loop_fails split: sum.splits)

lemma max_loop_first_max:
  assumes "\<forall>x \<in> set xs. key x = Inr (f x)"
  shows "(max_loop key best bv xs = Inr best \<and> (\<forall>x \<in> set xs. f x \<le> bv)) \<or>
         (\<exists>pre m post. max_loop key best bv xs = Inr m \<and> xs = pre @ m # post \<and> bv < f m \<and>
            (\<forall>x \<in> set pre. f x < f m) \<and> (\<forall>x \<in> set post. f x \<le> f m))"
  using assms
proof (induction xs arbitrary: best bv)
  case Nil
  then show ?case by simp
next
  case (Cons x xs)
  have kx: "key x = Inr (f x)" and rest: "\<forall>y \<in> set xs. key y = Inr (f y)"
    using Cons.prems by auto
  show ?case
  proof (cases "f x > bv")
    case True
    from Cons.IH [OF rest, of x "f x"]
    show ?thesis
    proof
      assume a: "max_loop key x (f x) xs = Inr x \<and> (\<forall>y \<in> set xs. f y \<le> f x)"
      have "max_loop key best bv (x # xs) = Inr x \<and> x # xs = [] @ x # xs \<and> bv < f x \<and>
            (\<forall>y \<in> set []. f y < f x) \<and> (\<forall>y \<in> set xs. f y \<le> f x)"
        using a kx True by simp
      then show ?thesis by blast
    next
      assume "\<exists>pre m post. max_loop key x (f x) xs = Inr m \<and> xs = pre @ m # post \<and> f x < f m \<and>
            (\<forall>y \<in> set pre. f y < f m) \<and> (\<forall>y \<in> set post. f y \<le> f m)"
      then obtain pre m post where b: "max_loop key x (f x) xs = Inr m" "xs = pre @ m # post"
         "f x < f m" "\<forall>y \<in> set pre. f y < f m" "\<forall>y \<in> set post. f y \<le> f m" by blast
      have "max_loop key best bv (x # xs) = Inr m \<and> x # xs = (x # pre) @ m # post \<and> bv < f m \<and>
            (\<forall>y \<in> set (x # pre). f y < f m) \<and> (\<forall>y \<in> set post. f y \<le> f m)"
        using b kx True by simp
      then show ?thesis by blast
    qed
  next
    case False
    from Cons.IH [OF rest, of best bv]
    show ?thesis
    proof
      assume a: "max_loop key best bv xs = Inr best \<and> (\<forall>y \<in> set xs. f y \<le> bv)"
      then show ?thesis using kx False by simp
    next
      assume "\<exists>pre m post. max_loop key best bv xs = Inr m \<and> xs = pre @ m # post \<and> bv < f m \<and>
            (\<forall>y \<in> set pre. f y < f m) \<and> (\<forall>y \<in> set post. f y \<le> f m)"
      then obtain pre m post where b: "max_loop key best bv xs = Inr m" "xs = pre @ m # post"
         "bv < f m" "\<forall>y \<in> set pre. f y < f m" "\<forall>y \<in> set post. f y \<le> f m" by blast
      have "max_loop key best bv (x # xs) = Inr m \<and> x # xs = (x # pre) @ m # post \<and> bv < f m \<and>
            (\<forall>y \<in> set (x # pre). f y < f m) \<and> (\<forall>y \<in> set post. f y \<le> f m)"
        using b kx False by simp
      then show ?thesis by blast
    qed
  qed
qed

lemma py_max_first_max:
  assumes "xs \<noteq> []" and "\<forall>x \<in> set xs. key x = Inr (f x)"
  shows "\<exists>pre m post. py_max key xs = Inr m \<and> xs = pre @ m # post \<and>
            (\<forall>x \<in> set pre. f x < f m) \<and> (\<forall>x \<in> set post. f x \<le> f m)"
proof -
  obtain x rest where xs: "xs = x # rest" using assms(1) by (cases xs) auto
  have kx: "key x = Inr (f x)" and r: "\<forall>y \<in> set rest. key y = Inr (f y)"
    using assms(2) xs by auto
  have pm: "py_max key xs = max_loop key x (f x) rest"
    by (simp add: py_max_def xs kx)
  from max_loop_first_max [OF r, of x "f x"]
  show ?thesis
  proof
    assume a: "max_loop key x (f x) rest = Inr x \<and> (\<forall>y \<in> set rest. f y \<le> f x)"
    have "py_max key xs = Inr x \<and> xs = [] @ x # rest \<and>
            (\<forall>y \<in> set []. f y < f x) \<and> (\<forall>y \<in> set rest. f y \<le> f x)"
      using a pm xs by simp
    then show ?thesis by blast
  next
    assume "\<exists>pre m post. max_loop key x (f x) rest = Inr m \<and> rest = pre @ m # post \<and> f x < f m \<and>
            (\<forall>y \<in> set pre. f y < f m) \<and> (\<forall>y \<in> set post. f y \<le> f m)"
    then obtain pre m post where b: "max_loop key x (f x) rest = Inr m" "rest = pre @ m # post"
         "f x < f m" "\<forall>y \<in> set pre. f y < f m" "\<forall>y \<in> set post. f y \<le> f m" by blast
    have "py_max key xs = Inr m \<and> xs = (x # pre) @ m # post \<and>
            (\<forall>y \<in> set (x # pre). f y < f m) \<and> (\<forall>y \<in> set post. f y \<le> f m)"
      using b pm xs by simp
    then show ?thesis by blast
  qed
qed

lemma py_strip_head:
  assumes "\<not> py_isspace x"
  shows "\<exists>r. py_strip (x # s) = x # r"
proof -
  have "dropWhile py_isspace (rev s @ [x]) \<noteq> [] \<and> last (dropWhile py_isspace (rev s @ [x])) = x"
    using assms by (simp add: dropWhile_append)
  then obtain ys where "dropWhile py_isspace (rev s @ [x]) = ys @ [x]"
    by (metis append_butlast_last_id)
  then show ?thesis using assms by (simp add: py_strip_def)
qed

lemma py_int_literal_start:
  assumes "py_int s = Inr v"
  shows "s \<noteq> [] \<and> literal_start (hd s)"
proof (cases s)
  case Nil
  then show ?thesis using assms by (simp add: py_int_def py_strip_def)
next
  case (Cons x r)
  show ?thesis
  proof (cases "py_isspace x")
    case True
    then show ?thesis using Cons by (simp add: literal_start_def)
  next
    case False
    then obtain r' where "py_strip s = x # r'" using py_strip_head Cons by blast
    then show ?thesis using assms Cons
      by (auto simp: py_int_def literal_start_def unsigned_literal_def split: if_splits option.splits)
  qed
qed

lemma not_literal_start_course: "x \<in> set ''course'' \<Longrightarrow> \<not> literal_start x"
  by (auto simp: literal_start_def py_isspace_def py_isdigit_def)

lemma not_literal_start_week: "x \<in> set ''week'' \<Longrightarrow> \<not> literal_start x"
  by (auto simp: literal_start_def py_isspace_def py_isdigit_def)

lemma py_lstrip_prefix:
  assumes "set pre \<subseteq> set chars" and "s \<noteq> []" and "hd s \<notin> set chars"
  shows "py_lstrip (pre @ s) chars = s"
proof -
  have "dropWhile (\<lambda>x. x \<in> set chars) (pre @ s) = dropWhile (\<lambda>x. x \<in> set chars) s"
    using assms(1) by (simp add: dropWhile_append subset_iff)
  also have "\<dots> = s" using assms(2,3) by (cases s) auto
  finally show ?thesis by (simp add: py_lstrip_def)
qed

lemma lstrip_course_literal:
  assumes "py_int s = Inr v"
  shows "py_lstrip (''course'' @ s) ''course'' = s"
  using py_int_literal_start [OF assms] not_literal_start_course [of "hd s"]
  by (intro py_lstrip_prefix) auto

lemma lstrip_week_literal:
  assumes "py_int s = Inr v"
  shows "py_lstrip (''week'' @ s) ''week'' = s"
  using py_int_literal_start [OF assms] not_literal_start_week [of "hd s"]
  by (intro py_lstrip_prefix) auto

section \<open>The latest course and the latest week\<close>

lemma startswith_split: "py_startswith s pre \<Longrightarrow> s = pre @ remainder_after pre s"
  by (metis append_take_drop_id py_startswith_def remainder_after_def)

lemma course_key:
  assumes "IS_COURSE_DIR n" and "py_int (remainder_after ''course'' n) = Inr v"
  shows "py_int (py_lstrip n ''course'') = Inr v"
proof -
  have "n = ''course'' @ remainder_after ''course'' n"
    using assms(1) unfolding IS_COURSE_DIR_def by (rule startswith_split)
  then have "py_lstrip n ''course'' = remainder_after ''course'' n"
    using lstrip_course_literal [OF assms(2)] by simp
  then show ?thesis using assms(2) by simp
qed

lemma week_key:
  assumes "IS_WEEK_DIR n" and "py_int (remainder_after ''week'' n) = Inr v"
  shows "py_int (py_lstrip n ''week'') = Inr v"
proof -
  have "n = ''week'' @ remainder_after ''week'' n"
    using assms(1) unfolding IS_WEEK_DIR_def by (rule startswith_split)
  then have "py_lstrip n ''week'' = remainder_after ''week'' n"
    using lstrip_week_literal [OF assms(2)] by simp
  then show ?thesis using assms(2) by simp
qed

lemma strict_maximum:
  assumes xs: "xs = pre @ m # post"
    and pre: "\<forall>x \<in> set pre. f x < f m" and post: "\<forall>x \<in> set post. f x \<le> (f m :: int)"
    and inj: "inj_on f (set xs)"
  shows "m \<in> set xs \<and> (\<forall>n \<in> set xs. n \<noteq> m \<longrightarrow> f n < f m)"
proof -
  have m: "m \<in> set xs" using xs by simp
  have "f n < f m" if n: "n \<in> set xs" "n \<noteq> m" for n
  proof -
    have "f n \<noteq> f m" using inj n m by (auto dest: inj_onD)
    moreover have "f n \<le> f m" using n xs pre post by auto
    ultimately show ?thesis by simp
  qed
  then show ?thesis using m by blast
qed

lemma latest_course_first_max:
  assumes "filter IS_COURSE_DIR names \<noteq> []"
    and "\<forall>n \<in> set names. IS_COURSE_DIR n \<longrightarrow> py_int (py_lstrip n ''course'') = Inr (f n)"
  shows "\<exists>pre m post. latest_course_of names = Inr (Some m) \<and>
           filter IS_COURSE_DIR names = pre @ m # post \<and>
           (\<forall>x \<in> set pre. f x < f m) \<and> (\<forall>x \<in> set post. f x \<le> f m)"
proof -
  let ?cs = "filter IS_COURSE_DIR names"
  have "\<forall>x \<in> set ?cs. (\<lambda>c. py_int (py_lstrip c ''course'')) x = Inr (f x)"
    using assms(2) by simp
  from py_max_first_max [OF assms(1) this]
  obtain pre m post where r: "GET_LATEST_COURSE ?cs = Inr m" "?cs = pre @ m # post"
    "\<forall>x \<in> set pre. f x < f m" "\<forall>x \<in> set post. f x \<le> f m"
    unfolding GET_LATEST_COURSE_def by blast
  have "latest_course_of names = Inr (Some m)"
    using assms(1) r(1) by (simp add: latest_course_of_def)
  then show ?thesis using r by blast
qed

lemma latest_week_first_max:
  assumes "filter IS_WEEK_DIR names \<noteq> []"
    and "\<forall>n \<in> set names. IS_WEEK_DIR n \<longrightarrow> py_int (py_lstrip n ''week'') = Inr (f n)"
  shows "\<exists>pre m post. latest_week_of names = Inr (Some m) \<and>
           filter IS_WEEK_DIR names = pre @ m # post \<and>
           (\<forall>x \<in> set pre. f x < f m) \<and> (\<forall>x \<in> set post. f x \<le> f m)"
proof -
  let ?cs = "filter IS_WEEK_DIR names"
  have "\<forall>x \<in> set ?cs. (\<lambda>c. py_int (py_lstrip c ''week'')) x = Inr (f x)"
    using assms(2) by simp
  from py_max_first_max [OF assms(1) this]
  obtain pre m post where r: "GET_LATEST_WEEK ?cs = Inr m" "?cs = pre @ m # post"
    "\<forall>x \<in> set pre. f x < f m" "\<forall>x \<in> set post. f x \<le> f m"
    unfolding GET_LATEST_WEEK_def by blast
  have "latest_week_of names = Inr (Some m)"
    using assms(1) r(1) by (simp add: latest_week_of_def)
  then show ?thesis using r by blast
qed

lemma latest_course_maximum:
  assumes "names \<noteq> []"
    and all: "\<forall>n \<in> set names. IS_COURSE_DIR n \<and> py_int (remainder_after ''course'' n) = Inr (f n)"
    and inj: "inj_on f (set names)"
  shows "\<exists>m. latest_course_of names = Inr (Some m) \<and> m \<in> set names \<and>
             (\<forall>n \<in> set names. n \<noteq> m \<longrightarrow> f n < f m)"
proof -
  have flt: "filter IS_COURSE_DIR names = names" using all by (simp add: filter_id_conv)
  have keys: "\<forall>n \<in> set names. IS_COURSE_DIR n \<longrightarrow> py_int (py_lstrip n ''course'') = Inr (f n)"
    using all course_key by blast
  from latest_course_first_max [OF _ keys] flt assms(1)
  obtain pre m post where r: "latest_course_of names = Inr (Some m)" "names = pre @ m # post"
    "\<forall>x \<in> set pre. f x < f m" "\<forall>x \<in> set post. f x \<le> f m"
    by auto
  from strict_maximum [OF r(2) r(3) r(4) inj] r(1) show ?thesis by blast
qed

lemma latest_week_maximum:
  assumes "names \<noteq> []"
    and all: "\<forall>n \<in> set names. IS_WEEK_DIR n \<and> py_int (remainder_after ''week'' n) = Inr (f n)"
    and inj: "inj_on f (set names)"
  shows "\<exists>m. latest_week_of names = Inr (Some m) \<and> m \<in> set names \<and>
             (\<forall>n \<in> set names. n \<noteq> m \<longrightarrow> f n < f m)"
proof -
  have flt: "filter IS_WEEK_DIR names = names" using all by (simp add: filter_id_conv)
  have keys: "\<forall>n \<in> set names. IS_WEEK_DIR n \<longrightarrow> py_int (py_lstrip n ''week'') = Inr (f n)"
    using all week_key by blast
  from latest_week_first_max [OF _ keys] flt assms(1)
  obtain pre m post where r: "latest_week_of names = Inr (Some m)" "names = pre @ m # post"
    "\<forall>x \<in> set pre. f x < f m" "\<forall>x \<in> set post. f x \<le> f m"
    by auto
  from strict_maximum [OF r(2) r(3) r(4) inj] r(1) show ?thesis by blast
qed

lemma latest_course_fails:
  "isl (latest_course_of names) \<longleftrightarrow>
     (\<exists>n \<in> set names. IS_COURSE_DIR n \<and> isl (py_int (py_lstrip n ''course'')))"
proof (cases "filter IS_COURSE_DIR names = []")
  case True
  then show ?thesis by (auto simp: latest_course_of_def filter_empty_conv)
next
  case False
  then have "isl (latest_course_of names) \<longleftrightarrow> isl (GET_LATEST_COURSE (filter IS_COURSE_DIR names))"
    by (cases "GET_LATEST_COURSE (filter IS_COURSE_DIR names)") (simp_all add: latest_course_of_def)
  then show ?thesis using False by (auto simp: GET_LATEST_COURSE_def py_max_fails)
qed

lemma latest_week_fails:
  "isl (latest_week_of names) \<longleftrightarrow>
     (\<exists>n \<in> set names. IS_WEEK_DIR n \<and> isl (py_int (py_lstrip n ''week'')))"
proof (cases "filter IS_WEEK_DIR names = []")
  case True
  then show ?thesis by (auto simp: latest_week_of_def filter_empty_conv)
next
  case False
  then have "isl (latest_week_of names) \<longleftrightarrow> isl (GET_LATEST_WEEK (filter IS_WEEK_DIR names))"
    by (cases "GET_LATEST_WEEK (filter IS_WEEK_DIR names)") (simp_all add: latest_week_of_def)
  then show ?thesis using False by (auto simp: GET_LATEST_WEEK_def py_max_fails)
qed

text \<open>
  Claim C1: the lookup raises exactly when the remainder of some selected name after
  the prefix is not a base-10 integer. The program removes the prefix with
  \<^verbatim>\<open>lstrip\<close>, which removes every leading character of the set c, o, u, r, s, e (or
  w, e, k), so the directory names \<^verbatim>\<open>coursee5\<close> and \<^verbatim>\<open>weekk3\<close>, whose remainders \<^verbatim>\<open>e5\<close>
  and \<^verbatim>\<open>k3\<close> are no integers, are read as 5 and 3 and returned instead of raising.
\<close>

theorem C1_lstrip_accepts_malformed_name:
  "IS_COURSE_DIR ''coursee5'' \<and>
   py_int (remainder_after ''course'' ''coursee5'') = Inl ValueError \<and>
   latest_course_of [''coursee5''] = Inr (Some ''coursee5'') \<and>
   IS_WEEK_DIR ''weekk3'' \<and>
   py_int (remainder_after ''week'' ''weekk3'') = Inl ValueError \<and>
   latest_week_of [''weekk3''] = Inr (Some ''weekk3'')"
  by code_simp

text \<open>
  Claim C3: when every candidate starts with the prefix and the remainders are integers,
  all different, the lookup returns the candidate with the greatest number.
\<close>

theorem C3_latest_is_numeric_maximum:
  "(courses \<noteq> [] \<and>
    (\<forall>n \<in> set courses. IS_COURSE_DIR n \<and> py_int (remainder_after ''course'' n) = Inr (f n)) \<and>
    inj_on f (set courses) \<longrightarrow>
    (\<exists>m. latest_course_of courses = Inr (Some m) \<and> m \<in> set courses \<and>
         (\<forall>n \<in> set courses. n \<noteq> m \<longrightarrow> f n < f m))) \<and>
   (weeks \<noteq> [] \<and>
    (\<forall>n \<in> set weeks. IS_WEEK_DIR n \<and> py_int (remainder_after ''week'' n) = Inr (g n)) \<and>
    inj_on g (set weeks) \<longrightarrow>
    (\<exists>m. latest_week_of weeks = Inr (Some m) \<and> m \<in> set weeks \<and>
         (\<forall>n \<in> set weeks. n \<noteq> m \<longrightarrow> g n < g m)))"
  using latest_course_maximum [of courses f] latest_week_maximum [of weeks g] by blast

text \<open>
  C3 at the listing \<^verbatim>\<open>course1, course2, course10\<close>: the result is \<^verbatim>\<open>course10\<close>, the
  greatest number and not the greatest string.
\<close>

theorem C3_numeric_not_lexicographic:
  "latest_course_of [''course1'', ''course2'', ''course10''] = Inr (Some ''course10'') \<and>
   latest_week_of [''week9'', ''week11'', ''week3''] = Inr (Some ''week11'')"
proof -
  let ?cs = "[''course1'', ''course2'', ''course10'']"
  let ?ws = "[''week9'', ''week11'', ''week3'']"
  let ?f = "suffix_number ''course''"
  let ?g = "suffix_number ''week''"
  have c: "?cs \<noteq> []"
    "\<forall>n \<in> set ?cs. IS_COURSE_DIR n \<and> py_int (remainder_after ''course'' n) = Inr (?f n)"
    "inj_on ?f (set ?cs)"
    by code_simp+
  have w: "?ws \<noteq> []"
    "\<forall>n \<in> set ?ws. IS_WEEK_DIR n \<and> py_int (remainder_after ''week'' n) = Inr (?g n)"
    "inj_on ?g (set ?ws)"
    by code_simp+
  have v: "?f ''course1'' = 1" "?f ''course2'' = 2" "?f ''course10'' = 10"
    "?g ''week9'' = 9" "?g ''week11'' = 11" "?g ''week3'' = 3"
    by code_simp+
  note both = C3_latest_is_numeric_maximum [of ?cs ?f ?ws ?g]
  from both c obtain m where m: "latest_course_of ?cs = Inr (Some m)" "m \<in> set ?cs"
     "\<forall>n \<in> set ?cs. n \<noteq> m \<longrightarrow> ?f n < ?f m" by blast
  have "m = ''course10''" using m(2,3) v by auto
  from both w obtain k where k: "latest_week_of ?ws = Inr (Some k)" "k \<in> set ?ws"
     "\<forall>n \<in> set ?ws. n \<noteq> k \<longrightarrow> ?g n < ?g k" by blast
  have "k = ''week11''" using k(2,3) v by auto
  show ?thesis using m(1) k(1) \<open>m = ''course10''\<close> \<open>k = ''week11''\<close> by simp
qed

text \<open>
  Claim C6: when no name of the listing starts with the prefix, the lookup returns
  \<^verbatim>\<open>None\<close>, neither an error nor a name.
\<close>

theorem C6_no_candidate_gives_none:
  "((\<forall>n \<in> set courses. \<not> IS_COURSE_DIR n) \<longrightarrow> latest_course_of courses = Inr None) \<and>
   ((\<forall>n \<in> set weeks. \<not> IS_WEEK_DIR n) \<longrightarrow> latest_week_of weeks = Inr None)"
  by (simp add: latest_course_of_def latest_week_of_def filter_empty_conv)

text \<open>C6 at listings with near misses of the prefix.\<close>

theorem C6_unrelated_names_give_none:
  "latest_course_of [''notes.txt'', ''cours7'', ''week1''] = Inr None \<and>
   latest_week_of [''course3'', ''Week2''] = Inr None"
proof -
  have "\<forall>n \<in> set [''notes.txt'', ''cours7'', ''week1'']. \<not> IS_COURSE_DIR n"
    and "\<forall>n \<in> set [''course3'', ''Week2'']. \<not> IS_WEEK_DIR n"
    by code_simp+
  then show ?thesis
    using C6_no_candidate_gives_none [of "[''notes.txt'', ''cours7'', ''week1'']" "[''course3'', ''Week2'']"]
    by blast
qed

text \<open>
  Claim C9: when the number of every selected name can be read, the lookup returns the
  first name of the selection that carries the greatest number: every selected name
  before it is strictly smaller, every one after it is at most equal.
\<close>

theorem C9_first_maximal_name_wins:
  "(filter IS_COURSE_DIR names \<noteq> [] \<and>
    (\<forall>n \<in> set names. IS_COURSE_DIR n \<longrightarrow> py_int (py_lstrip n ''course'') = Inr (f n)) \<longrightarrow>
    (\<exists>pre m post. latest_course_of names = Inr (Some m) \<and>
        filter IS_COURSE_DIR names = pre @ m # post \<and>
        (\<forall>x \<in> set pre. f x < f m) \<and> (\<forall>x \<in> set post. f x \<le> f m))) \<and>
   (filter IS_WEEK_DIR entries \<noteq> [] \<and>
    (\<forall>n \<in> set entries. IS_WEEK_DIR n \<longrightarrow> py_int (py_lstrip n ''week'') = Inr (g n)) \<longrightarrow>
    (\<exists>pre m post. latest_week_of entries = Inr (Some m) \<and>
        filter IS_WEEK_DIR entries = pre @ m # post \<and>
        (\<forall>x \<in> set pre. g x < g m) \<and> (\<forall>x \<in> set post. g x \<le> g m)))"
  using latest_course_first_max [of names f] latest_week_first_max [of entries g] by blast

text \<open>C9 where \<^verbatim>\<open>2\<close> and \<^verbatim>\<open>02\<close> tie: the name listed first is returned.\<close>

theorem C9_leading_zero_tie:
  "latest_course_of [''course2'', ''readme'', ''course02''] = Inr (Some ''course2'') \<and>
   latest_week_of [''week02'', ''week2''] = Inr (Some ''week02'')"
proof -
  let ?cs = "[''course2'', ''readme'', ''course02'']"
  let ?ws = "[''week02'', ''week2'']"
  let ?f = "stripped_number ''course''"
  let ?g = "stripped_number ''week''"
  have fc: "filter IS_COURSE_DIR ?cs = [''course2'', ''course02'']"
    and fw: "filter IS_WEEK_DIR ?ws = [''week02'', ''week2'']"
    by code_simp+
  have c: "filter IS_COURSE_DIR ?cs \<noteq> []"
    "\<forall>n \<in> set ?cs. IS_COURSE_DIR n \<longrightarrow> py_int (py_lstrip n ''course'') = Inr (?f n)"
    by code_simp+
  have w: "filter IS_WEEK_DIR ?ws \<noteq> []"
    "\<forall>n \<in> set ?ws. IS_WEEK_DIR n \<longrightarrow> py_int (py_lstrip n ''week'') = Inr (?g n)"
    by code_simp+
  have v: "?f ''course2'' = 2" "?f ''course02'' = 2" "?g ''week02'' = 2" "?g ''week2'' = 2"
    by code_simp+
  note both = C9_first_maximal_name_wins [of ?cs ?f ?ws ?g]
  from both c obtain pre m post where m: "latest_course_of ?cs = Inr (Some m)"
    "filter IS_COURSE_DIR ?cs = pre @ m # post" "\<forall>x \<in> set pre. ?f x < ?f m" by blast
  have "m = ''course2''"
    using m(2,3) v unfolding fc by (cases pre) (auto simp: Cons_eq_append_conv)
  from both w obtain pre' k post' where k: "latest_week_of ?ws = Inr (Some k)"
    "filter IS_WEEK_DIR ?ws = pre' @ k # post'" "\<forall>x \<in> set pre'. ?g x < ?g k" by blast
  have "k = ''week02''"
    using k(2,3) v unfolding fw by (cases pre') (auto simp: Cons_eq_append_conv)
  show ?thesis using m(1) k(1) \<open>m = ''course2''\<close> \<open>k = ''week02''\<close> by simp
qed

section \<open>Properties of the file system\<close>



lemma walk_app:
  "walk t cur (xs @ ys) = (case walk t cur xs of Inl e \<Rightarrow> Inl e | Inr d \<Rightarrow> walk t d ys)"
  by (induction xs arbitrary: cur) (auto split: option.splits node.splits)




lemma os_mkdir_calls: "calls (snd (os_mkdir p w)) = calls w @ [Mkdir p]"
  by (auto simp: os_mkdir_def record_call_def Let_def split: sum.splits)




lemma os_mkdir_existing:
  assumes "dir_at (files w) p"
  shows "\<exists>e. e \<noteq> FileNotFoundError \<and> os_mkdir p w = (Inl e, record_call (Mkdir p) w)"
proof (cases "p = []")
  case True
  then show ?thesis by (simp add: os_mkdir_def)
next
  case False
  then have p: "p = butlast p @ [last p]" by simp
  from assms obtain q where q: "walk (files w) [] (butlast p @ [last p]) = Inr q"
    using p by (auto simp: dir_at_def split: sum.splits)
  then obtain d where d: "walk (files w) [] (butlast p) = Inr d" and l: "walk (files w) d [last p] = Inr q"
    by (auto simp: walk_app split: sum.splits)
  have "last p = ''..'' \<or> lookup (files w) (d @ [last p]) \<noteq> None"
    using l by (auto split: if_splits option.splits)
  then show ?thesis using False d by (auto simp: os_mkdir_def Let_def)
qed





lemma files_record_call [simp]: "files (record_call s w) = files w"
  by (simp add: record_call_def)




lemma Path_mkdir_existing:
  assumes "dir_at (files w) p"
  shows "Path_mkdir parents p w = (Inr (), record_call (Stat p) (record_call (Mkdir p) w))"
proof -
  from os_mkdir_existing [OF assms] obtain e where
    "e \<noteq> FileNotFoundError" "os_mkdir p w = (Inl e, record_call (Mkdir p) w)" by blast
  then show ?thesis using assms
    by (subst Path_mkdir.simps) (simp add: is_dir_def)
qed



lemma mkdir_gracefully_existing:
  "dir_at (files w) p \<Longrightarrow>
     mkdir_gracefully p w = (Inr (), record_call (Stat p) (record_call (Mkdir p) w))"
  unfolding mkdir_gracefully_def by (rule Path_mkdir_existing)














section \<open>The program: week scaffold, lookups and \<^verbatim>\<open>main\<close>\<close>

lemma joinpath_classwork [simp]: "joinpath p ''classwork'' = p @ [''classwork'']"
proof -
  have "parts_of ''classwork'' = [''classwork'']" "\<not> py_startswith ''classwork'' ''/''"
    by code_simp+
  then show ?thesis by (simp add: joinpath_def)
qed

lemma joinpath_homework [simp]: "joinpath p ''homework'' = p @ [''homework'']"
proof -
  have "parts_of ''homework'' = [''homework'']" "\<not> py_startswith ''homework'' ''/''"
    by code_simp+
  then show ?thesis by (simp add: joinpath_def)
qed

lemma joinpath_src [simp]: "joinpath p ''src'' = p @ [''src'']"
proof -
  have "parts_of ''src'' = [''src'']" "\<not> py_startswith ''src'' ''/''"
    by code_simp+
  then show ?thesis by (simp add: joinpath_def)
qed

lemma joinpath_answ [simp]: "joinpath p ''answ'' = p @ [''answ'']"
proof -
  have "parts_of ''answ'' = [''answ'']" "\<not> py_startswith ''answ'' ''/''"
    by code_simp+
  then show ?thesis by (simp add: joinpath_def)
qed


lemma os_listdir_files: "os_listdir p w = (r, w1) \<Longrightarrow> files w1 = files w"
  by (auto simp: os_listdir_def Let_def split: sum.splits)

lemma get_latest_course_files: "get_latest_course p w = (r, w1) \<Longrightarrow> files w1 = files w"
  by (auto simp: get_latest_course_def split: prod.splits sum.splits dest: os_listdir_files)

lemma get_latest_week_files: "get_latest_week p w = (r, w1) \<Longrightarrow> files w1 = files w"
  by (auto simp: get_latest_week_def split: prod.splits sum.splits dest: os_listdir_files)

lemma parse_loop_first_positional:
  "parse_loop (Arg d # ws) None c w ex =
     (if d \<notin> set (map fst COURSES) then Inl (Usage_error (Invalid_choice ''directory'' d))
      else case ws of
             Arg m # rest \<Rightarrow>
               if m \<notin> set [''c'', ''h''] then Inl (Usage_error (Invalid_choice ''hw'' m))
               else parse_loop rest (Some (d, m)) c w ex
           | _ \<Rightarrow> parse_loop ws (Some (d, ''h'')) c w ex)"
proof (cases ws)
  case Nil
  then show ?thesis by simp
next
  case (Cons x rest)
  then show ?thesis by (cases x) simp_all
qed

lemma parse_loop_positionals_done:
  "parse_loop ws (Some p) c w ex = Inr a \<Longrightarrow>
     positional_words ws = [] \<and> ex = [] \<and> directory a = fst p \<and> hw a = snd p \<and>
     c_opt a = (case raw_c ws of None \<Rightarrow> c | Some t \<Rightarrow> Some t) \<and>
     w_opt a = (case raw_w ws of None \<Rightarrow> w | Some t \<Rightarrow> Some t)"
proof (induction ws arbitrary: c w ex)
  case Nil
  then show ?case by (cases p) (auto split: if_splits)
next
  case (Cons x ws)
  show ?case
  proof (cases x)
    case (Arg s)
    then have "parse_loop ws (Some p) c w (ex @ [s]) = Inr a" using Cons.prems by simp
    from Cons.IH [OF this] show ?thesis by simp
  next
    case (Opt_c s)
    then have "parse_loop ws (Some p) (Some s) w ex = Inr a" using Cons.prems by simp
    from Cons.IH [OF this] show ?thesis using Opt_c by (simp split: option.splits)
  next
    case (Opt_w s)
    then have "parse_loop ws (Some p) c (Some s) ex = Inr a" using Cons.prems by simp
    from Cons.IH [OF this] show ?thesis using Opt_w by (simp split: option.splits)
  next
    case Help
    then show ?thesis using Cons.prems by simp
  qed
qed

lemma parse_loop_accepts:
  "parse_loop ws None c w ex = Inr a \<Longrightarrow>
   c_opt a = (case raw_c ws of None \<Rightarrow> c | Some t \<Rightarrow> Some t) \<and>
   w_opt a = (case raw_w ws of None \<Rightarrow> w | Some t \<Rightarrow> Some t) \<and>
   (hw a = ''c'' \<or> hw a = ''h'') \<and>
   directory a \<in> set (map fst COURSES) \<and>
   (positional_words ws = [directory a] \<or> positional_words ws = [directory a, hw a])"
proof (induction ws arbitrary: c w)
  case Nil
  then show ?case by simp
next
  case (Cons x ws)
  show ?case
  proof (cases x)
    case (Arg d)
    have eq: "parse_loop (Arg d # ws) None c w ex = Inr a" using Cons.prems Arg by simp
    then have dv: "d \<in> set (map fst COURSES)"
      unfolding parse_loop_first_positional by (simp split: if_splits)
    show ?thesis
    proof (cases "\<exists>m rest. ws = Arg m # rest")
      case True
      then obtain m rest where ws: "ws = Arg m # rest" by blast
      have mv: "m = ''c'' \<or> m = ''h''" and r: "parse_loop rest (Some (d, m)) c w ex = Inr a"
        using eq dv unfolding parse_loop_first_positional ws by (auto split: if_splits)
      from parse_loop_positionals_done [OF r] show ?thesis using Arg ws mv dv by simp
    next
      case False
      then have "(case ws of Arg m # rest \<Rightarrow>
               if m \<notin> set [''c'', ''h''] then Inl (Usage_error (Invalid_choice ''hw'' m))
               else parse_loop rest (Some (d, m)) c w ex
           | _ \<Rightarrow> parse_loop ws (Some (d, ''h'')) c w ex) = parse_loop ws (Some (d, ''h'')) c w ex"
        by (auto split: list.splits word.splits)
      then have r: "parse_loop ws (Some (d, ''h'')) c w ex = Inr a"
        using eq dv unfolding parse_loop_first_positional by simp
      from parse_loop_positionals_done [OF r] show ?thesis using Arg dv by simp
    qed
  next
    case (Opt_c s)
    then have "parse_loop ws None (Some s) w ex = Inr a" using Cons.prems by simp
    from Cons.IH [OF this] show ?thesis using Opt_c by (simp split: option.splits)
  next
    case (Opt_w s)
    then have "parse_loop ws None c (Some s) ex = Inr a" using Cons.prems by simp
    from Cons.IH [OF this] show ?thesis using Opt_w by (simp split: option.splits)
  next
    case Help
    then show ?thesis using Cons.prems by simp
  qed
qed

lemma parse_args_fields:
  assumes "parse_args raw = Inr a"
  shows "c_opt a = raw_c raw" "w_opt a = raw_w raw" "hw a = ''c'' \<or> hw a = ''h''"
    "\<exists>dirname. map_of COURSES (directory a) = Some dirname"
proof -
  have r: "parse_loop raw None None None [] = Inr a" using assms by (simp add: parse_args_def)
  note f = parse_loop_accepts [OF r]
  show "c_opt a = raw_c raw" using f by (simp split: option.splits)
  show "w_opt a = raw_w raw" using f by (simp split: option.splits)
  show "hw a = ''c'' \<or> hw a = ''h''" using f by simp
  have "directory a = ''p'' \<or> directory a = ''a''" using f by (simp add: COURSES_def)
  then show "\<exists>dirname. map_of COURSES (directory a) = Some dirname"
    by (auto simp: COURSES_def)
qed




lemma main_accepted: "parse_args raw = Inr a \<Longrightarrow> main home raw w = run home a w"
  by (simp add: main_def)



















text \<open>
  Claim C10: an accepted command line has leaf mode \<^verbatim>\<open>c\<close> or \<^verbatim>\<open>h\<close>, so a run that
  prints a path prints one ending in \<^verbatim>\<open>classwork\<close> (mode \<^verbatim>\<open>c\<close>) or in
  \<^verbatim>\<open>homework/answ\<close> (mode \<^verbatim>\<open>h\<close>); the last branch of \<^verbatim>\<open>main\<close> is never taken.
\<close>

theorem C10_leaf_mode_is_c_or_h:
  "parse_args raw = Inr a \<longrightarrow>
   (hw a = ''c'' \<or> hw a = ''h'') \<and>
   (\<forall>out w'. main home raw w = (Printed out, w') \<longrightarrow>
      (\<exists>week_path. (hw a = ''c'' \<and> out = week_path @ [''classwork'']) \<or>
                    (hw a = ''h'' \<and> out = week_path @ [''homework'', ''answ''])))"
proof (intro impI conjI allI)
  assume p: "parse_args raw = Inr a"
  show h: "hw a = ''c'' \<or> hw a = ''h''" using p by (rule parse_args_fields(3))
  fix out w' assume "main home raw w = (Printed out, w')"
  then have r: "run home a w = (Printed out, w')" using main_accepted [OF p] by simp
  then show "\<exists>week_path. (hw a = ''c'' \<and> out = week_path @ [''classwork'']) \<or>
                    (hw a = ''h'' \<and> out = week_path @ [''homework'', ''answ''])"
    using h
    by (auto simp: run_def Let_def split: option.splits prod.splits sum.splits if_splits)
qed

text \<open>
  Every run whose command line is accepted calls the system: its first call is the
  \<^verbatim>\<open>os.mkdir\<close> of the category directory.
\<close>

lemma later_refl: "later w w"
  by (simp add: later_def)

lemma later_trans: "later w w1 \<Longrightarrow> later w1 w2 \<Longrightarrow> later w w2"
  by (auto simp: later_def)

lemma os_mkdir_first_call: "os_mkdir p w = (r, w1) \<Longrightarrow> calls w1 = calls w @ [Mkdir p]"
  using os_mkdir_calls [of p w] by simp

lemma os_listdir_later: "os_listdir p w = (r, w1) \<Longrightarrow> later w w1"
  by (auto simp: os_listdir_def Let_def later_def record_call_def split: sum.splits)

lemma Path_mkdir_first_call:
  "\<exists>more. calls (snd (Path_mkdir parents p w)) = calls w @ Mkdir p # more"
proof (induction parents p w rule: Path_mkdir.induct)
  case (1 parents p w)
  obtain r w1 where om: "os_mkdir p w = (r, w1)" by (cases "os_mkdir p w")
  have c1: "calls w1 = calls w @ [Mkdir p]" using om by (rule os_mkdir_first_call)
  show ?case
  proof (cases r)
    case (Inr u)
    then show ?thesis using om c1 by (subst Path_mkdir.simps) simp
  next
    case (Inl e)
    show ?thesis
    proof (cases "e = FileNotFoundError")
      case False
      then show ?thesis using om Inl c1
        by (subst Path_mkdir.simps) (simp add: is_dir_def record_call_def split: bool.splits)
    next
      case True
      show ?thesis
      proof (cases "\<not> parents \<or> butlast p = p")
        case True
        then show ?thesis using om Inl \<open>e = FileNotFoundError\<close> c1
          by (subst Path_mkdir.simps) auto
      next
        case False
        obtain r2 w2 where pm: "Path_mkdir True (butlast p) w1 = (r2, w2)"
          by (cases "Path_mkdir True (butlast p) w1")
        from "1.IH"(1) [OF om [symmetric] Inl True False] pm c1
        obtain m2 where c2: "calls w2 = calls w @ Mkdir p # m2" by auto
        show ?thesis
        proof (cases r2)
          case (Inl e')
          then show ?thesis using om \<open>r = Inl e\<close> True False pm c2
            by (subst Path_mkdir.simps) simp
        next
          case (Inr u)
          from "1.IH"(2) [OF om [symmetric] \<open>r = Inl e\<close> True False pm [symmetric] Inr] c2
          obtain m3 where "calls (snd (Path_mkdir False p w2)) = calls w @ Mkdir p # m3" by auto
          then show ?thesis using om \<open>r = Inl e\<close> True False pm Inr
            by (subst Path_mkdir.simps) simp
        qed
      qed
    qed
  qed
qed

lemma mkdir_gracefully_first_call:
  "mkdir_gracefully p w = (r, w1) \<Longrightarrow> \<exists>more. calls w1 = calls w @ Mkdir p # more"
  using Path_mkdir_first_call [of True p w] by (simp add: mkdir_gracefully_def)

lemma mkdir_gracefully_later: "mkdir_gracefully p w = (r, w1) \<Longrightarrow> later w w1"
  by (auto simp: later_def dest: mkdir_gracefully_first_call)

lemma create_week_dir_later: "create_week_dir p w = (r, w1) \<Longrightarrow> later w w1"
  by (auto simp: create_week_dir_def split: prod.splits sum.splits
           intro: later_trans dest!: mkdir_gracefully_later)

lemma get_course_later: "get_course p a w = (r, w1) \<Longrightarrow> later w w1"
  by (auto simp: get_course_def get_latest_course_def Let_def split: option.splits prod.splits sum.splits
           dest: mkdir_gracefully_later os_listdir_later)

lemma get_week_later: "get_week p a w = (r, w1) \<Longrightarrow> later w w1"
  by (auto simp: get_week_def get_latest_week_def Let_def split: option.splits prod.splits sum.splits
           dest: create_week_dir_later os_listdir_later)

lemma accepted_run_makes_the_category:
  assumes "parse_args raw = Inr a"
  shows "\<exists>dirname more. map_of COURSES (directory a) = Some dirname \<and>
           calls (snd (main home raw w)) = calls w @ Mkdir (base_path_of home dirname) # more"
proof -
  obtain dirname where d: "map_of COURSES (directory a) = Some dirname"
    using parse_args_fields(4) [OF assms] by blast
  let ?base = "base_path_of home dirname"
  obtain r w1 where m: "mkdir_gracefully ?base w = (r, w1)" by (cases "mkdir_gracefully ?base w")
  from mkdir_gracefully_first_call [OF m]
  obtain m1 where c1: "calls w1 = calls w @ Mkdir ?base # m1" by blast
  have "later w1 (snd (run home a w))"
  proof (cases r)
    case (Inl e)
    then show ?thesis using d m by (simp add: run_def later_refl)
  next
    case (Inr u)
    obtain r2 w2 where g: "get_course ?base a w1 = (r2, w2)" by (cases "get_course ?base a w1")
    have l2: "later w1 w2" using g by (rule get_course_later)
    show ?thesis
    proof (cases r2)
      case (Inl e)
      then show ?thesis using d m Inr g l2 by (simp add: run_def)
    next
      case r2: (Inr sel)
      show ?thesis
      proof (cases sel)
        case None
        then show ?thesis using d m Inr g l2 r2 by (simp add: run_def)
      next
        case (Some course)
        obtain r3 w3 where g3: "get_week (joinpath ?base course) a w2 = (r3, w3)"
          by (cases "get_week (joinpath ?base course) a w2")
        have "later w2 w3" using g3 by (rule get_week_later)
        then have l3: "later w1 w3" using l2 by (rule later_trans [rotated])
        show ?thesis using d m Inr g r2 Some g3 l3
          by (cases r3) (auto simp: run_def Let_def split: option.splits)
      qed
    qed
  qed
  then obtain m2 where "calls (snd (run home a w)) = calls w1 @ m2" by (auto simp: later_def)
  then have "calls (snd (main home raw w)) = calls w @ Mkdir ?base # (m1 @ m2)"
    using c1 main_accepted [OF assms] by simp
  then show ?thesis using d by blast
qed




text \<open>
  Claim C7: without \<^verbatim>\<open>-c\<close>, when the lookup of the latest course returns \<^verbatim>\<open>None\<close>,
  the run ends in \<^verbatim>\<open>parser.error\<close> with the message that asks for \<^verbatim>\<open>-c\<close>; without
  \<^verbatim>\<open>-w\<close>, when the lookup of the latest week returns \<^verbatim>\<open>None\<close>, it ends with the
  message that asks for \<^verbatim>\<open>-w\<close>. The exit status is 2 in both cases.
\<close>

theorem C7_nothing_to_select:
  "(parse_args raw = Inr a \<and> raw_c raw = None \<and>
    map_of COURSES (directory a) = Some dirname \<and>
    mkdir_gracefully (base_path_of home dirname) w = (Inr u, w1) \<and>
    get_latest_course (base_path_of home dirname) w1 = (Inr None, w2) \<longrightarrow>
    main home raw w =
      (Parser_error (Message ''no course dir to use. Please specify with -c flag''), w2) \<and>
    exit_status (fst (main home raw w)) = 2) \<and>
   (parse_args raw = Inr a \<and> raw_w raw = None \<and>
    map_of COURSES (directory a) = Some dirname \<and>
    mkdir_gracefully (base_path_of home dirname) w = (Inr u, w1) \<and>
    get_course (base_path_of home dirname) a w1 = (Inr (Some course), w2) \<and>
    get_latest_week (joinpath (base_path_of home dirname) course) w2 = (Inr None, w3) \<longrightarrow>
    main home raw w =
      (Parser_error (Message ''no week dir to use. Please specify with -w flag''), w3) \<and>
    exit_status (fst (main home raw w)) = 2)"
proof (intro conjI impI; elim conjE)
  assume p: "parse_args raw = Inr a" and "raw_c raw = None"
    and d: "map_of COURSES (directory a) = Some dirname"
    and m: "mkdir_gracefully (base_path_of home dirname) w = (Inr u, w1)"
    and g: "get_latest_course (base_path_of home dirname) w1 = (Inr None, w2)"
  then have "c_opt a = None" using parse_args_fields(1) [OF p] by simp
  then have "get_course (base_path_of home dirname) a w1 = (Inr None, w2)"
    using g by (simp add: get_course_def)
  then have "main home raw w =
      (Parser_error (Message ''no course dir to use. Please specify with -c flag''), w2)"
    using d m main_accepted [OF p] by (simp add: run_def)
  then show "main home raw w =
      (Parser_error (Message ''no course dir to use. Please specify with -c flag''), w2)"
    "exit_status (fst (main home raw w)) = 2" by simp_all
next
  assume p: "parse_args raw = Inr a" and "raw_w raw = None"
    and d: "map_of COURSES (directory a) = Some dirname"
    and m: "mkdir_gracefully (base_path_of home dirname) w = (Inr u, w1)"
    and gc: "get_course (base_path_of home dirname) a w1 = (Inr (Some course), w2)"
    and g: "get_latest_week (joinpath (base_path_of home dirname) course) w2 = (Inr None, w3)"
  then have "w_opt a = None" using parse_args_fields(2) [OF p] by simp
  then have "get_week (joinpath (base_path_of home dirname) course) a w2 = (Inr None, w3)"
    using g by (simp add: get_week_def)
  then have "main home raw w =
      (Parser_error (Message ''no week dir to use. Please specify with -w flag''), w3)"
    using d m gc main_accepted [OF p] by (simp add: run_def)
  then show "main home raw w =
      (Parser_error (Message ''no week dir to use. Please specify with -w flag''), w3)"
    "exit_status (fst (main home raw w)) = 2" by simp_all
qed

text \<open>
  Claim C2, amended: a run without \<^verbatim>\<open>-c\<close> and without \<^verbatim>\<open>-w\<close> leaves the file system
  as the call \<^verbatim>\<open>mkdir_gracefully(base_path)\<close> at the start of \<^verbatim>\<open>main\<close> left it: the
  lookups of course and week create nothing. When the category directory exists
  already, the run creates no directory at all.
\<close>

theorem C2_lookup_creates_nothing_below_category:
  "parse_args raw = Inr a \<and> raw_c raw = None \<and> raw_w raw = None \<longrightarrow>
   (\<exists>dirname. map_of COURSES (directory a) = Some dirname \<and>
      files (snd (main home raw w)) = files (snd (mkdir_gracefully (base_path_of home dirname) w)) \<and>
      (dir_at (files w) (base_path_of home dirname) \<longrightarrow> files (snd (main home raw w)) = files w))"
proof (intro impI, elim conjE)
  assume p: "parse_args raw = Inr a" and rc: "raw_c raw = None" and rw: "raw_w raw = None"
  obtain dirname where d: "map_of COURSES (directory a) = Some dirname"
    using parse_args_fields(4) [OF p] by blast
  let ?base = "base_path_of home dirname"
  have co: "c_opt a = None" and wo: "w_opt a = None"
    using parse_args_fields(1,2) [OF p] rc rw by simp_all
  obtain r w1 where m: "mkdir_gracefully ?base w = (r, w1)" by (cases "mkdir_gracefully ?base w")
  have eq: "files (snd (run home a w)) = files w1"
  proof (cases r)
    case (Inl e)
    then show ?thesis using d m by (simp add: run_def)
  next
    case (Inr u)
    obtain r2 w2 where g: "get_latest_course ?base w1 = (r2, w2)"
      by (cases "get_latest_course ?base w1")
    have f2: "files w2 = files w1" using g by (rule get_latest_course_files)
    show ?thesis
    proof (cases r2)
      case (Inl e)
      then show ?thesis using d m Inr g co f2 by (simp add: run_def get_course_def)
    next
      case r2: (Inr sel)
      show ?thesis
      proof (cases sel)
        case None
        then show ?thesis using d m Inr g co f2 r2 by (simp add: run_def get_course_def)
      next
        case (Some course)
        obtain r3 w3 where g3: "get_latest_week (joinpath ?base course) w2 = (r3, w3)"
          by (cases "get_latest_week (joinpath ?base course) w2")
        have f3: "files w3 = files w2" using g3 by (rule get_latest_week_files)
        show ?thesis using d m Inr g co wo f2 f3 r2 Some g3
          by (cases r3) (auto simp: run_def get_course_def get_week_def Let_def split: option.splits)
      qed
    qed
  qed
  have one: "files (snd (main home raw w)) = files (snd (mkdir_gracefully ?base w))"
    using eq m main_accepted [OF p] by simp
  have two: "files (snd (main home raw w)) = files w" if "dir_at (files w) ?base"
    using one mkdir_gracefully_existing [OF that] by simp
  show "\<exists>dirname. map_of COURSES (directory a) = Some dirname \<and>
      files (snd (main home raw w)) = files (snd (mkdir_gracefully (base_path_of home dirname) w)) \<and>
      (dir_at (files w) (base_path_of home dirname) \<longrightarrow> files (snd (main home raw w)) = files w)"
    using d one two by blast
qed

section \<open>The statements at concrete inputs\<close>



text \<open>
  Claim C2 says that a run without \<^verbatim>\<open>-c\<close> and \<^verbatim>\<open>-w\<close> creates no directory. With
  alias \<^verbatim>\<open>a\<close> and a \<^verbatim>\<open>Magshimim\<close> directory that has no \<^verbatim>\<open>assembly\<close> yet, \<^verbatim>\<open>main\<close>
  creates \<^verbatim>\<open>assembly\<close> before it looks for a course.
\<close>

theorem C2_category_root_is_created:
  "main [''home'', ''user'']
     [Arg ''a'']
     \<lparr>files = [([''home''], Dir), ([''home'', ''user''], Dir),
               ([''home'', ''user'', ''Magshimim''], Dir)],
      calls = []\<rparr> =
   (Parser_error (Message ''no course dir to use. Please specify with -c flag''),
    \<lparr>files = [([''home''], Dir), ([''home'', ''user''], Dir),
              ([''home'', ''user'', ''Magshimim''], Dir),
              ([''home'', ''user'', ''Magshimim'', ''assembly''], Dir)],
     calls = [Mkdir [''home'', ''user'', ''Magshimim'', ''assembly''],
              Listdir [''home'', ''user'', ''Magshimim'', ''assembly'']]\<rparr>)"
  by code_simp

text \<open>
  C2 for alias \<^verbatim>\<open>a\<close>, mode \<^verbatim>\<open>c\<close> and a category that holds \<^verbatim>\<open>course3\<close> with \<^verbatim>\<open>week1\<close>
  and \<^verbatim>\<open>week7\<close>: the run prints \<^verbatim>\<open>assembly/course3/week7/classwork\<close> and creates
  nothing.
\<close>

theorem C2_course3_week7:
  "main user_home (command ''a'' (Some ''c'') None None) one_course =
     (Printed (magshimim @ [''assembly'', ''course3'', ''week7'', ''classwork'']),
      snd (main user_home (command ''a'' (Some ''c'') None None) one_course)) \<and>
   files (snd (main user_home (command ''a'' (Some ''c'') None None) one_course)) = files one_course"
proof -
  let ?raw = "command ''a'' (Some ''c'') None None"
  let ?a = "\<lparr>directory = ''a'', hw = ''c'', c_opt = None, w_opt = None\<rparr>"
  have p: "parse_args ?raw = Inr ?a" and rc: "raw_c ?raw = None" and rw: "raw_w ?raw = None"
    by code_simp+
  have d: "map_of COURSES (directory ?a) = Some ''assembly''" by code_simp
  have e: "dir_at (files one_course) (base_path_of user_home ''assembly'')" by code_simp
  have "fst (main user_home ?raw one_course) =
          Printed (magshimim @ [''assembly'', ''course3'', ''week7'', ''classwork''])"
    by code_simp
  then have m: "main user_home ?raw one_course =
     (Printed (magshimim @ [''assembly'', ''course3'', ''week7'', ''classwork'']),
      snd (main user_home ?raw one_course))"
    by (simp add: prod_eq_iff)
  from C2_lookup_creates_nothing_below_category [of ?raw ?a user_home one_course] p rc rw
  obtain dirname where r: "map_of COURSES (directory ?a) = Some dirname"
    "dir_at (files one_course) (base_path_of user_home dirname) \<longrightarrow>
       files (snd (main user_home ?raw one_course)) = files one_course"
    by blast
  have "dirname = ''assembly''" using r(1) d by simp
  then have "files (snd (main user_home ?raw one_course)) = files one_course"
    using r(2) e by simp
  then show ?thesis using m by simp
qed

text \<open>
  C7 for alias \<^verbatim>\<open>a\<close> without options: on an empty category directory the run asks
  for \<^verbatim>\<open>-c\<close>, on a course without weeks it asks for \<^verbatim>\<open>-w\<close>.
\<close>

theorem C7_empty_category_root:
  "fst (main user_home (command ''a'' None None None) empty_category) =
     Parser_error (Message ''no course dir to use. Please specify with -c flag'') \<and>
   exit_status (fst (main user_home (command ''a'' None None None) empty_category)) = 2 \<and>
   fst (main user_home (command ''a'' None None None) course_without_weeks) =
     Parser_error (Message ''no week dir to use. Please specify with -w flag'') \<and>
   exit_status (fst (main user_home (command ''a'' None None None) course_without_weeks)) = 2"
proof -
  let ?raw = "command ''a'' None None None"
  let ?a = "\<lparr>directory = ''a'', hw = ''h'', c_opt = None, w_opt = None\<rparr>"
  let ?base = "base_path_of user_home ''assembly''"
  have p: "parse_args ?raw = Inr ?a" and rc: "raw_c ?raw = None" and rw: "raw_w ?raw = None"
    by code_simp+
  have d: "map_of COURSES (directory ?a) = Some ''assembly''" by code_simp
  let ?w1 = "snd (mkdir_gracefully ?base empty_category)"
  let ?w2 = "snd (get_latest_course ?base ?w1)"
  have "fst (mkdir_gracefully ?base empty_category) = Inr ()" by code_simp
  then have m1: "mkdir_gracefully ?base empty_category = (Inr (), ?w1)" by (simp add: prod_eq_iff)
  have "fst (get_latest_course ?base ?w1) = Inr None" by code_simp
  then have g1: "get_latest_course ?base ?w1 = (Inr None, ?w2)" by (simp add: prod_eq_iff)
  let ?v1 = "snd (mkdir_gracefully ?base course_without_weeks)"
  let ?v2 = "snd (get_course ?base ?a ?v1)"
  let ?v3 = "snd (get_latest_week (joinpath ?base ''course3'') ?v2)"
  have "fst (mkdir_gracefully ?base course_without_weeks) = Inr ()" by code_simp
  then have m2: "mkdir_gracefully ?base course_without_weeks = (Inr (), ?v1)"
    by (simp add: prod_eq_iff)
  have "fst (get_course ?base ?a ?v1) = Inr (Some ''course3'')" by code_simp
  then have gc: "get_course ?base ?a ?v1 = (Inr (Some ''course3''), ?v2)" by (simp add: prod_eq_iff)
  have "fst (get_latest_week (joinpath ?base ''course3'') ?v2) = Inr None" by code_simp
  then have g2: "get_latest_week (joinpath ?base ''course3'') ?v2 = (Inr None, ?v3)"
    by (simp add: prod_eq_iff)
  have one: "main user_home ?raw empty_category =
      (Parser_error (Message ''no course dir to use. Please specify with -c flag''), ?w2) \<and>
      exit_status (fst (main user_home ?raw empty_category)) = 2"
    using C7_nothing_to_select [of ?raw ?a "''assembly''" user_home empty_category "()" ?w1 ?w2]
      p rc d m1 g1 by blast
  have two: "main user_home ?raw course_without_weeks =
      (Parser_error (Message ''no week dir to use. Please specify with -w flag''), ?v3) \<and>
      exit_status (fst (main user_home ?raw course_without_weeks)) = 2"
    using C7_nothing_to_select [of ?raw ?a "''assembly''" user_home course_without_weeks "()" ?v1 ?v2
        "''course3''" ?v3]
      p rw d m2 gc g2 by blast
  show ?thesis using one two by simp
qed


text \<open>C10 for mode \<^verbatim>\<open>c\<close> and for the default mode.\<close>

theorem C10_classwork_and_default_mode:
  "hw \<lparr>directory = ''a'', hw = ''c'', c_opt = None, w_opt = None\<rparr> = ''c'' \<and>
   (\<exists>week_path. fst (main user_home (command ''a'' (Some ''c'') None None) one_course) =
        Printed (week_path @ [''classwork''])) \<and>
   (\<exists>week_path. fst (main user_home (command ''a'' None None None) one_course) =
        Printed (week_path @ [''homework'', ''answ'']))"
proof -
  let ?r1 = "command ''a'' (Some ''c'') None None"
  let ?a1 = "\<lparr>directory = ''a'', hw = ''c'', c_opt = None, w_opt = None\<rparr>"
  let ?r2 = "command ''a'' None None None"
  let ?a2 = "\<lparr>directory = ''a'', hw = ''h'', c_opt = None, w_opt = None\<rparr>"
  have p1: "parse_args ?r1 = Inr ?a1" and p2: "parse_args ?r2 = Inr ?a2" by code_simp+
  have "fst (main user_home ?r1 one_course) =
          Printed (magshimim @ [''assembly'', ''course3'', ''week7'', ''classwork''])"
    by code_simp
  then have m1: "main user_home ?r1 one_course =
     (Printed (magshimim @ [''assembly'', ''course3'', ''week7'', ''classwork'']),
      snd (main user_home ?r1 one_course))"
    by (simp add: prod_eq_iff)
  have "fst (main user_home ?r2 one_course) =
          Printed (magshimim @ [''assembly'', ''course3'', ''week7'', ''homework'', ''answ''])"
    by code_simp
  then have m2: "main user_home ?r2 one_course =
     (Printed (magshimim @ [''assembly'', ''course3'', ''week7'', ''homework'', ''answ'']),
      snd (main user_home ?r2 one_course))"
    by (simp add: prod_eq_iff)
  from C10_leaf_mode_is_c_or_h [of ?r1 ?a1 user_home one_course] p1 m1
  obtain wp1 where "(hw ?a1 = ''c'' \<and> magshimim @ [''assembly'', ''course3'', ''week7'', ''classwork'']
         = wp1 @ [''classwork'']) \<or>
       (hw ?a1 = ''h'' \<and> magshimim @ [''assembly'', ''course3'', ''week7'', ''classwork'']
         = wp1 @ [''homework'', ''answ''])"
    by blast
  then have c1: "magshimim @ [''assembly'', ''course3'', ''week7'', ''classwork''] = wp1 @ [''classwork'']"
    by auto
  from C10_leaf_mode_is_c_or_h [of ?r2 ?a2 user_home one_course] p2 m2
  obtain wp2 where "(hw ?a2 = ''c'' \<and> magshimim @ [''assembly'', ''course3'', ''week7'', ''homework'', ''answ'']
         = wp2 @ [''classwork'']) \<or>
       (hw ?a2 = ''h'' \<and> magshimim @ [''assembly'', ''course3'', ''week7'', ''homework'', ''answ'']
         = wp2 @ [''homework'', ''answ''])"
    by blast
  then have c2: "magshimim @ [''assembly'', ''course3'', ''week7'', ''homework'', ''answ'']
       = wp2 @ [''homework'', ''answ'']"
    by auto
  have e1: "\<exists>week_path. fst (main user_home ?r1 one_course) = Printed (week_path @ [''classwork''])"
    using m1 c1 by (metis fst_conv)
  have e2: "\<exists>week_path. fst (main user_home ?r2 one_course) =
        Printed (week_path @ [''homework'', ''answ''])"
    using m2 c2 by (metis fst_conv)
  show ?thesis using e1 e2 by simp
qed

end
